theory Spec2Isabelle
  imports Complex_Main
begin

section \<open>Python values and errors\<close>

text \<open>
  The driver is Python 2 code. A Python \<open>float\<close> is an IEEE 754 binary64 number: it is
  modelled as a rational (the finite values), an infinity with its sign, or a NaN. The
  arithmetic of the source (\<open>*\<close>, \<open>/\<close>, \<open>+\<close> on floats) rounds to the nearest double,
  ties to even; the rounding is written out below, since the encoder truncates a rounded
  product and the poll loop compares a rounded sum.
\<close>

datatype error =
  InvalidArgumentException
  | NoAckException
  | TimeoutException
  | TypeError
  | ValueError
  | OverflowError

datatype pyfloat = Fin rat | Inf bool | NaN

text \<open>
  The arguments the setters receive. Python is untyped, so a caller can pass a float, an
  int, \<open>None\<close> or a list; string arguments to the setters are outside this model.
\<close>

datatype pyval = PyFloat pyfloat | PyInt int | PyNone | PyList "pyval list"

section \<open>Rounding to binary64\<close>

fun bit_length :: "nat \<Rightarrow> nat" where
  "bit_length n = (if n = 0 then 0 else bit_length (n div 2) + 1)"

declare bit_length.simps [simp del]

definition pow2 :: "int \<Rightarrow> rat" where
  "pow2 e = (if 0 \<le> e then 2 ^ nat e else 1 / 2 ^ nat (- e))"

text \<open>\<open>ilog2 q\<close> is the integer \<open>k\<close> with \<open>2^k \<le> q < 2^(k+1)\<close>, for a positive \<open>q\<close>.\<close>

definition ilog2 :: "rat \<Rightarrow> int" where
  "ilog2 q =
     (if 1 \<le> q then int (bit_length (nat \<lfloor>q\<rfloor>)) - 1
      else - int (bit_length (nat (\<lceil>1 / q\<rceil> - 1))))"

definition round_half_even :: "rat \<Rightarrow> int" where
  "round_half_even q =
     (let f = \<lfloor>q\<rfloor>; r = q - of_int f
      in if r < 1 / 2 then f
         else if 1 / 2 < r then f + 1
         else if even f then f else f + 1)"

text \<open>
  A double has 53 mantissa bits, so the last bit of a number in \<open>[2^k, 2^(k+1))\<close> weighs
  \<open>2^(k-52)\<close>; the subnormal numbers stop at \<open>2^(-1074)\<close>.
\<close>

definition ulp_exp :: "rat \<Rightarrow> int" where
  "ulp_exp q = max (ilog2 \<bar>q\<bar> - 52) (- 1074)"

definition fl :: "rat \<Rightarrow> rat" where
  "fl q = (if q = 0 then 0
           else of_int (round_half_even (q / pow2 (ulp_exp q))) * pow2 (ulp_exp q))"

text \<open>
  The largest double is \<open>2^1024 - 2^971\<close>. A number half a unit in the last place above
  it, or beyond, rounds to \<open>2^1024\<close>, which is an infinity.
\<close>

definition float_of_rat :: "rat \<Rightarrow> pyfloat" where
  "float_of_rat q = (if 2 ^ 1024 - 2 ^ 970 \<le> \<bar>q\<bar> then Inf (q < 0) else Fin (fl q))"

text \<open>\<open>x * 10\<close> and \<open>x / d\<close> for a float \<open>x\<close> and a positive int constant.\<close>

definition fmul :: "pyfloat \<Rightarrow> rat \<Rightarrow> pyfloat" where
  "fmul x c = (case x of Fin q \<Rightarrow> float_of_rat (q * c) | Inf s \<Rightarrow> Inf s | NaN \<Rightarrow> NaN)"

definition fdiv :: "pyfloat \<Rightarrow> rat \<Rightarrow> pyfloat" where
  "fdiv x c = (case x of Fin q \<Rightarrow> float_of_rat (q / c) | Inf s \<Rightarrow> Inf s | NaN \<Rightarrow> NaN)"


text \<open>
  \<open>int(x)\<close> of a float truncates toward zero; of an infinity it raises OverflowError, of
  a NaN ValueError.
\<close>

definition trunc :: "rat \<Rightarrow> int" where
  "trunc q = (if 0 \<le> q then \<lfloor>q\<rfloor> else \<lceil>q\<rceil>)"

definition int_of_float :: "pyfloat \<Rightarrow> error + int" where
  "int_of_float x =
     (case x of Fin q \<Rightarrow> Inr (trunc q) | Inf s \<Rightarrow> Inl OverflowError | NaN \<Rightarrow> Inl ValueError)"

text \<open>\<open>float(n)\<close> of an int raises OverflowError when \<open>n\<close> is too large for a double.\<close>

definition float_of_int :: "int \<Rightarrow> error + pyfloat" where
  "float_of_int n =
     (case float_of_rat (of_int n) of Inf s \<Rightarrow> Inl OverflowError | x \<Rightarrow> Inr x)"

section \<open>Strings of digits\<close>

definition digit_char :: "char \<Rightarrow> bool" where
  "digit_char c = (c \<in> set ''0123456789'')"

definition digit_of :: "nat \<Rightarrow> char" where
  "digit_of d = ''0123456789'' ! d"

definition digit_val :: "char \<Rightarrow> nat" where
  "digit_val c = of_char c - 48"

text \<open>\<open>str(n)\<close> of a non-negative int: its decimal digits, no leading zero.\<close>

fun str_nat :: "nat \<Rightarrow> string" where
  "str_nat n = (if n < 10 then [digit_of n] else str_nat (n div 10) @ [digit_of (n mod 10)])"

declare str_nat.simps [simp del]

definition str_int :: "int \<Rightarrow> string" where
  "str_int i = (if i < 0 then CHR ''-'' # str_nat (nat (- i)) else str_nat (nat i))"

text \<open>\<open>s.rjust(w, c)\<close>: pad on the left up to width \<open>w\<close>; a longer string is unchanged.\<close>

definition rjust :: "nat \<Rightarrow> char \<Rightarrow> string \<Rightarrow> string" where
  "rjust w c s = replicate (w - length s) c @ s"

text \<open>The value of a string of decimal digits, most significant first.\<close>

definition nat_of_digits :: "string \<Rightarrow> nat" where
  "nat_of_digits s = foldl (\<lambda>acc c. 10 * acc + digit_val c) 0 s"

section \<open>The numeric codec\<close>

text \<open>
  \<^verbatim>\<open>
  def __FloatToThreeDigits(self, inputFloat):
      float(inputFloat)
      output = str(int(inputFloat * 10) % 200)
      return output.rjust(3, '0')
  \<close>
  \<open>float(inputFloat)\<close> is the only check of the argument: it raises TypeError for
  \<open>None\<close> and for a list, and OverflowError for an int beyond the doubles. For a list,
  \<open>inputFloat * 10\<close> would be a repetition, which the check above never lets through.
\<close>

definition FloatToThreeDigits :: "pyval \<Rightarrow> error + string" where
  "FloatToThreeDigits inputFloat =
     (case inputFloat of
        PyFloat x \<Rightarrow>
          (case int_of_float (fmul x 10) of
             Inl e \<Rightarrow> Inl e
           | Inr i \<Rightarrow> Inr (rjust 3 (CHR ''0'') (str_int (i mod 200))))
      | PyInt n \<Rightarrow>
          (case float_of_int n of
             Inl e \<Rightarrow> Inl e
           | Inr _ \<Rightarrow> Inr (rjust 3 (CHR ''0'') (str_int ((n * 10) mod 200))))
      | PyNone \<Rightarrow> Inl TypeError
      | PyList _ \<Rightarrow> Inl TypeError)"

text \<open>
  Python's slice \<open>s[a:b]\<close> for \<open>0 \<le> a \<le> b\<close>: it never raises, a slice beyond the end
  is shorter or empty.
\<close>

definition slice :: "nat \<Rightarrow> nat \<Rightarrow> string \<Rightarrow> string" where
  "slice a b s = take (b - a) (drop a s)"

text \<open>
  \<open>int(s)\<close> of a Python 2 string: blanks around the literal are skipped, a sign may come
  first (Python 2 also skips blanks after the sign), then at least one decimal digit and
  nothing else. Anything else raises ValueError.
\<close>

definition space_char :: "char \<Rightarrow> bool" where
  "space_char c = (c \<in> set [CHR 0x20, CHR 0x09, CHR 0x0A, CHR 0x0B, CHR 0x0C, CHR 0x0D])"

definition strip :: "string \<Rightarrow> string" where
  "strip s = rev (dropWhile space_char (rev (dropWhile space_char s)))"

definition digits_to_int :: "string \<Rightarrow> error + int" where
  "digits_to_int s =
     (if s \<noteq> [] \<and> list_all digit_char s then Inr (int (nat_of_digits s)) else Inl ValueError)"

definition int_of_str :: "string \<Rightarrow> error + int" where
  "int_of_str s =
     (case strip s of
        [] \<Rightarrow> Inl ValueError
      | c # cs \<Rightarrow>
          if c = CHR ''-'' then
            (case digits_to_int (dropWhile space_char cs) of
               Inl e \<Rightarrow> Inl e | Inr n \<Rightarrow> Inr (- n))
          else if c = CHR ''+'' then digits_to_int (dropWhile space_char cs)
          else digits_to_int (c # cs))"

text \<open>
  \<open>float(s)\<close> of a string is reached only after \<open>int(s)\<close> has accepted it, so only
  integer literals are modelled: \<open>float\<close> accepts them unless blanks follow the sign, and
  gives the nearest double (an infinity when the literal is too large; no error).
\<close>

definition float_of_str :: "string \<Rightarrow> error + pyfloat" where
  "float_of_str s =
     (case strip s of
        [] \<Rightarrow> Inl ValueError
      | c # cs \<Rightarrow>
          if c = CHR ''-'' then
            (case digits_to_int cs of
               Inl e \<Rightarrow> Inl e | Inr n \<Rightarrow> Inr (float_of_rat (- of_int n)))
          else if c = CHR ''+'' then
            (case digits_to_int cs of
               Inl e \<Rightarrow> Inl e | Inr n \<Rightarrow> Inr (float_of_rat (of_int n)))
          else
            (case digits_to_int (c # cs) of
               Inl e \<Rightarrow> Inl e | Inr n \<Rightarrow> Inr (float_of_rat (of_int n))))"

text \<open>
  \<^verbatim>\<open>
  def __ThreeDigitsToFloat(self, inputDigits):
      int(inputDigits)
      return float(inputDigits) / 10

  def __FourDigitsToFloat(self, inputDigits):
      int(inputDigits)
      return float(inputDigits) / 100
  \<close>
  The decoders are modelled on the strings that the queries slice out of a reply.
\<close>

definition ThreeDigitsToFloat :: "string \<Rightarrow> error + pyfloat" where
  "ThreeDigitsToFloat inputDigits =
     (case int_of_str inputDigits of
        Inl e \<Rightarrow> Inl e
      | Inr _ \<Rightarrow>
          (case float_of_str inputDigits of
             Inl e \<Rightarrow> Inl e
           | Inr x \<Rightarrow> Inr (fdiv x 10)))"

definition FourDigitsToFloat :: "string \<Rightarrow> error + pyfloat" where
  "FourDigitsToFloat inputDigits =
     (case int_of_str inputDigits of
        Inl e \<Rightarrow> Inl e
      | Inr _ \<Rightarrow>
          (case float_of_str inputDigits of
             Inl e \<Rightarrow> Inl e
           | Inr x \<Rightarrow> Inr (fdiv x 100)))"

section \<open>The serial link\<close>

text \<open>
  The state of the serial port, as far as the driver sees it: what has been written (one
  entry for each call of \<open>write\<close>), the bytes received and not yet read, and the bursts
  that the device will still deliver, one for each 20 ms sleep of the poll loop. Any
  behaviour of the device is some list of bursts.
\<close>

record serial_port =
  written :: "string list"
  in_buffer :: string
  arriving :: "string list"

definition ser_write :: "serial_port \<Rightarrow> string \<Rightarrow> serial_port" where
  "ser_write ser bytes = ser\<lparr>written := written ser @ [bytes]\<rparr>"

definition inWaiting :: "serial_port \<Rightarrow> nat" where
  "inWaiting ser = length (in_buffer ser)"

definition ser_read :: "serial_port \<Rightarrow> nat \<Rightarrow> string \<times> serial_port" where
  "ser_read ser n = (take n (in_buffer ser), ser\<lparr>in_buffer := drop n (in_buffer ser)\<rparr>)"

definition sleep :: "serial_port \<Rightarrow> serial_port" where
  "sleep ser =
     (case arriving ser of
        [] \<Rightarrow> ser
      | burst # rest \<Rightarrow> ser\<lparr>in_buffer := in_buffer ser @ burst, arriving := rest\<rparr>)"

definition timeout :: rat where
  "timeout = 1"

definition poll_interval :: rat where
  "poll_interval = fl (1 / 50)"

text \<open>
  \<^verbatim>\<open>
  def ReadBuffer(self, readbufferDepth):
      int(readbufferDepth)
      t = 0.
      while t < self.timeout:
          numBytesAvailable = self.ser.inWaiting()
          if numBytesAvailable == readbufferDepth:
              return self.ser.read(readbufferDepth)
          time.sleep(0.02)
          t = t + 0.02
      raise TimeoutException
  \<close>
  The elapsed time \<open>t\<close> is a float: the literal \<open>0.02\<close> is the double nearest to 1/50,
  and each sum is rounded. Nothing in the loop itself bounds the number of rounds, so it is
  a partial function; that it always returns is proved below.
\<close>

partial_function (option) ReadBuffer_loop ::
  "serial_port \<Rightarrow> nat \<Rightarrow> rat \<Rightarrow> ((error + string) \<times> serial_port) option" where
  "ReadBuffer_loop ser readbufferDepth t =
     (if t < timeout then
        (if inWaiting ser = readbufferDepth then
           Some (Inr (fst (ser_read ser readbufferDepth)), snd (ser_read ser readbufferDepth))
         else ReadBuffer_loop (sleep ser) readbufferDepth (fl (t + poll_interval)))
      else Some (Inl TimeoutException, ser))"

definition ReadBuffer ::
  "serial_port \<Rightarrow> nat \<Rightarrow> ((error + string) \<times> serial_port) option" where
  "ReadBuffer ser readbufferDepth = ReadBuffer_loop ser readbufferDepth 0"

text \<open>
  \<^verbatim>\<open>
  def ExecuteCommand(self, command, readbufferDepth = 0):
      self.ser.write(command + '\r')
      readBuffer = self.ReadBuffer(readbufferDepth + 3)
      if readBuffer[readbufferDepth: readbufferDepth + 2] != "OK":
          raise NoAckException
      else:
          return readBuffer[0: readbufferDepth]
  \<close>
\<close>

definition ExecuteCommand ::
  "serial_port \<Rightarrow> string \<Rightarrow> nat \<Rightarrow> ((error + string) \<times> serial_port) option" where
  "ExecuteCommand ser command readbufferDepth =
     (case ReadBuffer (ser_write ser (command @ [CHR 0x0D])) (readbufferDepth + 3) of
        None \<Rightarrow> None
      | Some (Inl e, ser') \<Rightarrow> Some (Inl e, ser')
      | Some (Inr readBuffer, ser') \<Rightarrow>
          if slice readbufferDepth (readbufferDepth + 2) readBuffer \<noteq> ''OK''
          then Some (Inl NoAckException, ser')
          else Some (Inr (slice 0 readbufferDepth readBuffer), ser'))"

section \<open>The commands\<close>

text \<open>
  \<^verbatim>\<open>
  def SetPresetValues(self, presets):
      if (not isinstance(presets, list) or len(presets) != 3):
          raise InvalidArgumentException
      command = 'PROM'
      for i in range(0, 3):
          if (not isinstance(presets[i], list) or len(presets[i]) != 2):
              raise InvalidArgumentException
          command = command + self.__FloatToThreeDigits(presets[i][0])
          command = command + self.__FloatToThreeDigits(presets[i][1])
      self.ser.ExecuteCommand(command)
  \<close>
  The loop runs over the three slots in order; each slot is checked and then encoded
  before the next slot is looked at.
\<close>

fun preset_fields :: "pyval list \<Rightarrow> string \<Rightarrow> error + string" where
  "preset_fields [] command = Inr command"
| "preset_fields (slot # slots) command =
     (case slot of
        PyList vs \<Rightarrow>
          if length vs \<noteq> 2 then Inl InvalidArgumentException
          else
            (case FloatToThreeDigits (vs ! 0) of
               Inl e \<Rightarrow> Inl e
             | Inr v \<Rightarrow>
                 (case FloatToThreeDigits (vs ! 1) of
                    Inl e \<Rightarrow> Inl e
                  | Inr i \<Rightarrow> preset_fields slots (command @ v @ i)))
      | _ \<Rightarrow> Inl InvalidArgumentException)"

definition SetPresetValues ::
  "serial_port \<Rightarrow> pyval \<Rightarrow> ((error + unit) \<times> serial_port) option" where
  "SetPresetValues ser presets =
     (case presets of
        PyList slots \<Rightarrow>
          if length slots \<noteq> 3 then Some (Inl InvalidArgumentException, ser)
          else
            (case preset_fields slots ''PROM'' of
               Inl e \<Rightarrow> Some (Inl e, ser)
             | Inr command \<Rightarrow>
                 (case ExecuteCommand ser command 0 of
                    None \<Rightarrow> None
                  | Some (Inl e, ser') \<Rightarrow> Some (Inl e, ser')
                  | Some (Inr _, ser') \<Rightarrow> Some (Inr (), ser')))
      | _ \<Rightarrow> Some (Inl InvalidArgumentException, ser))"

text \<open>
  \<open>str(x)\<close> of a Python 2 float is the format \<open>%.12g\<close>: the value rounded to twelve
  significant decimal digits (ties to even), trailing zeros dropped, in exponent notation
  when the decimal exponent is below -4 or at least 12; a result that looks like an
  integer gets \<open>.0\<close> appended. Negative zero is not told apart from zero here.
\<close>

definition pow10 :: "int \<Rightarrow> rat" where
  "pow10 e = (if 0 \<le> e then 10 ^ nat e else 1 / 10 ^ nat (- e))"

text \<open>\<open>dec_exp q\<close> is the integer \<open>k\<close> with \<open>10^k \<le> q < 10^(k+1)\<close>, for a positive \<open>q\<close>.\<close>

definition dec_exp :: "rat \<Rightarrow> int" where
  "dec_exp q =
     (if 1 \<le> q then int (length (str_nat (nat \<lfloor>q\<rfloor>))) - 1
      else - int (length (str_nat (nat (\<lceil>1 / q\<rceil> - 1)))))"

text \<open>Twelve significant digits and the decimal exponent of the rounded value.\<close>

definition sig_digits :: "rat \<Rightarrow> nat \<times> int" where
  "sig_digits q =
     (let e = dec_exp q; m = round_half_even (q / pow10 (e - 11))
      in if m = 10 ^ 12 then (10 ^ 11, e + 1) else (nat m, e))"

definition rstrip_zeros :: "string \<Rightarrow> string" where
  "rstrip_zeros ds = rev (dropWhile (\<lambda>c. c = CHR ''0'') (rev ds))"

definition exp_digits :: "int \<Rightarrow> string" where
  "exp_digits x =
     (if x < 0 then CHR ''-'' else CHR ''+'') # rjust 2 (CHR ''0'') (str_nat (nat \<bar>x\<bar>))"

definition str_pos_float :: "rat \<Rightarrow> string" where
  "str_pos_float q =
     (case sig_digits q of (m, x) \<Rightarrow>
        let ds = rstrip_zeros (str_nat m)
        in if x < - 4 \<or> 12 \<le> x then
             take 1 ds @ (if drop 1 ds = [] then [] else CHR ''.'' # drop 1 ds) @
             CHR ''e'' # exp_digits x
           else if x < 0 then
             ''0.'' @ replicate (nat (- x - 1)) (CHR ''0'') @ ds
           else
             take (nat x + 1) (ds @ replicate 12 (CHR ''0'')) @
             CHR ''.'' # (if drop (nat x + 1) ds = [] then ''0'' else drop (nat x + 1) ds))"

definition str_float :: "rat \<Rightarrow> string" where
  "str_float q =
     (if q = 0 then ''0.0''
      else if q < 0 then CHR ''-'' # str_pos_float (- q)
      else str_pos_float q)"

text \<open>
  \<^verbatim>\<open>
  def RecallPresetValues(self, presetNumber):
      if int(presetNumber) < 0 or int(presetNumber) > 2:
          raise InvalidArgumentException
      command = 'RUNM' + str(presetNumber)
      self.ser.ExecuteCommand(command)
  \<close>
  \<open>int(presetNumber)\<close> is the number itself for an int, the truncation for a float, and
  raises TypeError for \<open>None\<close> and for a list. The command is built from
  \<open>str(presetNumber)\<close>, the argument as it was passed, not from the converted number.
\<close>

definition send_preset ::
  "serial_port \<Rightarrow> string \<Rightarrow> ((error + unit) \<times> serial_port) option" where
  "send_preset ser command =
     (case ExecuteCommand ser command 0 of
        None \<Rightarrow> None
      | Some (Inl e, ser') \<Rightarrow> Some (Inl e, ser')
      | Some (Inr _, ser') \<Rightarrow> Some (Inr (), ser'))"

definition RecallPresetValues ::
  "serial_port \<Rightarrow> pyval \<Rightarrow> ((error + unit) \<times> serial_port) option" where
  "RecallPresetValues ser presetNumber =
     (case presetNumber of
        PyInt n \<Rightarrow>
          if n < 0 \<or> n > 2 then Some (Inl InvalidArgumentException, ser)
          else send_preset ser (''RUNM'' @ str_int n)
      | PyFloat x \<Rightarrow>
          (case int_of_float x of
             Inl e \<Rightarrow> Some (Inl e, ser)
           | Inr n \<Rightarrow>
               if n < 0 \<or> n > 2 then Some (Inl InvalidArgumentException, ser)
               else send_preset ser (''RUNM'' @ (case x of Fin q \<Rightarrow> str_float q | _ \<Rightarrow> [])))
      | PyNone \<Rightarrow> Some (Inl TypeError, ser)
      | PyList _ \<Rightarrow> Some (Inl TypeError, ser))"

text \<open>
  \<^verbatim>\<open>
  def GetDisplayStatus(self):
      command = 'GETD'
      displayStatus = self.ser.ExecuteCommand(command, readbufferDepth = 10)
      voltage = self.__FourDigitsToFloat(displayStatus[0:4])
      current = self.__FourDigitsToFloat(displayStatus[4:8])
      mode    = "CV" if (int(displayStatus[8:9]) == 0) else "CC"
      return voltage, current, mode
  \<close>
\<close>

definition decode_display :: "string \<Rightarrow> error + (pyfloat \<times> pyfloat \<times> string)" where
  "decode_display displayStatus =
     (case FourDigitsToFloat (slice 0 4 displayStatus) of
        Inl e \<Rightarrow> Inl e
      | Inr voltage \<Rightarrow>
          (case FourDigitsToFloat (slice 4 8 displayStatus) of
             Inl e \<Rightarrow> Inl e
           | Inr current \<Rightarrow>
               (case int_of_str (slice 8 9 displayStatus) of
                  Inl e \<Rightarrow> Inl e
                | Inr m \<Rightarrow> Inr (voltage, current, if m = 0 then ''CV'' else ''CC''))))"

definition GetDisplayStatus ::
  "serial_port \<Rightarrow> ((error + (pyfloat \<times> pyfloat \<times> string)) \<times> serial_port) option" where
  "GetDisplayStatus ser =
     (case ExecuteCommand ser ''GETD'' 10 of
        None \<Rightarrow> None
      | Some (Inl e, ser') \<Rightarrow> Some (Inl e, ser')
      | Some (Inr displayStatus, ser') \<Rightarrow> Some (decode_display displayStatus, ser'))"

section \<open>Definitions used to state the properties\<close>

text \<open>
  The encoder as the specification words it: \<open>round(value * 10) mod 200\<close>, rendered in
  three characters, padded with zeros on the left.
\<close>

definition encode3_spec :: "rat \<Rightarrow> string" where
  "encode3_spec v = rjust 3 (CHR ''0'') (str_int (round (v * 10) mod 200))"

text \<open>Encoding a float and decoding the field again.\<close>

definition roundtrip3 :: "pyfloat \<Rightarrow> error + pyfloat" where
  "roundtrip3 v =
     (case FloatToThreeDigits (PyFloat v) of Inl e \<Rightarrow> Inl e | Inr s \<Rightarrow> ThreeDigitsToFloat s)"

text \<open>A bounded check of a predicate on \<open>i, i + 1, \<dots>, n - 1\<close>, which evaluates.\<close>

function check_from :: "nat \<Rightarrow> nat \<Rightarrow> (nat \<Rightarrow> bool) \<Rightarrow> bool" where
  "check_from i n P = (if i < n then P i \<and> check_from (i + 1) n P else True)"
  by pat_completeness auto
termination
  by (relation "measure (\<lambda>(i, n, P). n - i)") auto

declare check_from.simps [simp del]

text \<open>
  The double \<open>v\<close> times ten is exactly the integer \<open>k\<close> after rounding, and \<open>k\<close> is
  itself a double.
\<close>

definition tenfold_exact :: "rat \<Rightarrow> nat \<Rightarrow> bool" where
  "tenfold_exact v k = (\<bar>v * 10\<bar> \<le> 1000000 \<and> fl (v * 10) = of_nat k \<and> fl (of_nat k) = of_nat k)"

text \<open>
  The poll loop with the number of rounds fixed in advance: \<open>poll n\<close> samples the
  buffered count at most \<open>n\<close> times, with a sleep after each sample that does not match.
\<close>

fun poll :: "nat \<Rightarrow> serial_port \<Rightarrow> nat \<Rightarrow> (error + string) \<times> serial_port" where
  "poll 0 ser readbufferDepth = (Inl TimeoutException, ser)"
| "poll (Suc n) ser readbufferDepth =
     (if inWaiting ser = readbufferDepth then
        (Inr (fst (ser_read ser readbufferDepth)), snd (ser_read ser readbufferDepth))
      else poll n (sleep ser) readbufferDepth)"

text \<open>
  Starting from the elapsed time \<open>t\<close>, the loop condition \<open>t < timeout\<close> holds for exactly
  the next \<open>n\<close> rounds.
\<close>

fun ticks_below :: "nat \<Rightarrow> rat \<Rightarrow> bool" where
  "ticks_below 0 t = (\<not> t < timeout)"
| "ticks_below (Suc n) t = (t < timeout \<and> ticks_below n (fl (t + poll_interval)))"

text \<open>
  The shape that \<open>SetPresetValues\<close> asks for: a list of exactly three slots, each a list
  of exactly two values.
\<close>

fun is_pair :: "pyval \<Rightarrow> bool" where
  "is_pair (PyList vs) = (length vs = 2)"
| "is_pair _ = False"

fun well_shaped :: "pyval \<Rightarrow> bool" where
  "well_shaped (PyList slots) = (length slots = 3 \<and> list_all is_pair slots)"
| "well_shaped _ = False"

text \<open>Every value in every slot that is a list is one the encoder accepts.\<close>

fun slot_encodable :: "pyval \<Rightarrow> bool" where
  "slot_encodable (PyList vs) = list_all (\<lambda>v. \<not> isl (FloatToThreeDigits v)) vs"
| "slot_encodable _ = True"

fun values_encodable :: "pyval \<Rightarrow> bool" where
  "values_encodable (PyList slots) = list_all slot_encodable slots"
| "values_encodable _ = True"

section \<open>Evaluating the rounding\<close>

lemma floor_num_div: "\<lfloor>(numeral a :: rat) / numeral b\<rfloor> = numeral a div numeral b"
  using floor_divide_of_int_eq[of "numeral a" "numeral b", where 'a = rat] by simp

lemma floor_neg_num_div:
  "\<lfloor>- ((numeral a :: rat) / numeral b)\<rfloor> = (- numeral a) div numeral b"
  using floor_divide_of_int_eq[of "- numeral a" "numeral b", where 'a = rat] by simp

lemma ceiling_num_div:
  "\<lceil>(numeral a :: rat) / numeral b\<rceil> = - ((- numeral a) div numeral b)"
  using floor_divide_of_int_eq[of "- numeral a" "numeral b", where 'a = rat]
  by (simp add: ceiling_def)

lemma ceiling_neg_num_div:
  "\<lceil>- ((numeral a :: rat) / numeral b)\<rceil> = - (numeral a div numeral b)"
  using floor_divide_of_int_eq[of "numeral a" "numeral b", where 'a = rat]
  by (simp add: ceiling_def)

lemmas fl_eval =
  fl_def ulp_exp_def ilog2_def pow2_def round_half_even_def bit_length.simps Let_def
  floor_num_div floor_neg_num_div ceiling_num_div ceiling_neg_num_div

lemma replicate_eval:
  "replicate 1 c = [c]" "replicate 2 c = [c, c]" "replicate 3 c = [c, c, c]"
  by (simp_all add: numeral_2_eq_2 numeral_3_eq_3)

lemmas str_eval = rjust_def str_int_def str_nat.simps digit_of_def replicate_eval

text \<open>Numbers far below the largest double do not overflow.\<close>

lemma float_of_rat_small: "\<bar>q\<bar> \<le> 1000000 \<Longrightarrow> float_of_rat q = Fin (fl q)"
proof -
  assume "\<bar>q\<bar> \<le> 1000000"
  moreover have "(1000000 :: rat) < 2 ^ 1024 - 2 ^ 970" by simp
  ultimately show ?thesis by (simp add: float_of_rat_def)
qed

section \<open>Decimal strings\<close>

lemma digit_cases: "d < 10 \<Longrightarrow> d \<in> {0, 1, 2, 3, 4, 5, 6, 7, 8, 9::nat}"
  by auto

lemma digit_val_digit_of: "d < 10 \<Longrightarrow> digit_val (digit_of d) = d"
  using digit_cases[of d] by (auto simp: digit_val_def digit_of_def)

lemma digit_char_digit_of: "d < 10 \<Longrightarrow> digit_char (digit_of d)"
  using digit_cases[of d] by (auto simp: digit_char_def digit_of_def)

lemma digit_char_zero: "digit_char (CHR ''0'')"
  by (simp add: digit_char_def)

lemma nat_of_digits_snoc: "nat_of_digits (s @ [c]) = 10 * nat_of_digits s + digit_val c"
  by (simp add: nat_of_digits_def)

lemma nat_of_digits_str_nat: "nat_of_digits (str_nat n) = n"
proof (induction n rule: str_nat.induct)
  case (1 n)
  show ?case
  proof (cases "n < 10")
    case True
    then show ?thesis
      by (simp add: str_nat.simps[of n] nat_of_digits_def digit_val_digit_of)
  next
    case False
    with 1 show ?thesis
      by (simp add: str_nat.simps[of n] nat_of_digits_snoc digit_val_digit_of)
  qed
qed

lemma digits_str_nat: "list_all digit_char (str_nat n)"
proof (induction n rule: str_nat.induct)
  case (1 n)
  show ?case
  proof (cases "n < 10")
    case True
    then show ?thesis by (simp add: str_nat.simps[of n] digit_char_digit_of)
  next
    case False
    with 1 show ?thesis by (simp add: str_nat.simps[of n] digit_char_digit_of)
  qed
qed

lemma length_str_nat_3: "n < 1000 \<Longrightarrow> length (str_nat n) \<le> 3"
  by (simp add: str_nat.simps[of n] str_nat.simps[of "n div 10"]
      str_nat.simps[of "n div 10 div 10"])

lemma nat_of_digits_zeros: "nat_of_digits (replicate k (CHR ''0'') @ s) = nat_of_digits s"
  by (induction k) (simp_all add: nat_of_digits_def digit_val_def)

text \<open>The field of a residue modulo 200: three digits that spell the residue.\<close>

lemma field3_props:
  "length (rjust 3 (CHR ''0'') (str_int (i mod 200))) = 3 \<and>
   list_all digit_char (rjust 3 (CHR ''0'') (str_int (i mod 200))) \<and>
   int (nat_of_digits (rjust 3 (CHR ''0'') (str_int (i mod 200)))) = i mod 200"
proof -
  have nonneg: "0 \<le> i mod 200" and lt: "i mod 200 < 200" by simp_all
  then have s: "str_int (i mod 200) = str_nat (nat (i mod 200))"
    by (simp add: str_int_def)
  have len: "length (str_nat (nat (i mod 200))) \<le> 3"
    using lt nonneg by (intro length_str_nat_3) simp
  have l: "length (rjust 3 (CHR ''0'') (str_int (i mod 200))) = 3"
    using len by (simp add: s rjust_def)
  have d: "list_all digit_char (rjust 3 (CHR ''0'') (str_int (i mod 200)))"
    using digits_str_nat[of "nat (i mod 200)"]
    by (auto simp: s rjust_def list_all_iff digit_char_zero)
  have v: "int (nat_of_digits (rjust 3 (CHR ''0'') (str_int (i mod 200)))) = i mod 200"
    using nonneg by (simp add: s rjust_def nat_of_digits_zeros nat_of_digits_str_nat)
  from l d v show ?thesis by simp
qed

section \<open>The encoder\<close>

lemma FloatToThreeDigits_float:
  "fmul x 10 = Fin p \<Longrightarrow>
   FloatToThreeDigits (PyFloat x) = Inr (rjust 3 (CHR ''0'') (str_int (trunc p mod 200)))"
  by (simp add: FloatToThreeDigits_def int_of_float_def)

lemma FloatToThreeDigits_int:
  "float_of_int n = Inr f \<Longrightarrow>
   FloatToThreeDigits (PyInt n) = Inr (rjust 3 (CHR ''0'') (str_int ((n * 10) mod 200)))"
  by (simp add: FloatToThreeDigits_def)

text \<open>
  Claim C1, as the specification states it: for every value that is a number the encoder
  returns \<open>round(value * 10) mod 200\<close> in three zero-padded characters. The code truncates
  instead of rounding: for 0.75 (a double, and 0.75 * 10 = 7.5 is computed exactly) it
  returns \<open>007\<close>, where rounding gives \<open>008\<close>.
\<close>

theorem FloatToThreeDigits_rounds_counterexample:
  "FloatToThreeDigits (PyFloat (Fin (3 / 4))) = Inr ''007'' \<and> encode3_spec (3 / 4) = ''008''"
  by (simp add: FloatToThreeDigits_def fmul_def float_of_rat_def int_of_float_def trunc_def
      encode3_spec_def round_def fl_eval str_eval split del: if_split)

text \<open>
  Claim C1, amended: for every float whose tenfold product \<open>p\<close> (rounded to a double) is
  finite, and for every int that converts to a float, the encoder returns the integer part
  of the product, truncated toward zero, modulo 200, as three decimal digits with leading
  zeros; and for a value that is not a number (\<open>None\<close>, a list) it fails.
\<close>

theorem FloatToThreeDigits_truncates:
  "(fmul x 10 = Fin p \<longrightarrow>
      (\<exists>s. FloatToThreeDigits (PyFloat x) = Inr s \<and> length s = 3 \<and> list_all digit_char s \<and>
           int (nat_of_digits s) = trunc p mod 200)) \<and>
   (float_of_int n = Inr f \<longrightarrow>
      (\<exists>s. FloatToThreeDigits (PyInt n) = Inr s \<and> length s = 3 \<and> list_all digit_char s \<and>
           int (nat_of_digits s) = (n * 10) mod 200)) \<and>
   isl (FloatToThreeDigits PyNone) \<and> isl (FloatToThreeDigits (PyList vs))"
  using field3_props[of "trunc p"] field3_props[of "n * 10"]
  by (auto simp: FloatToThreeDigits_float FloatToThreeDigits_int)
    (simp_all add: FloatToThreeDigits_def)

theorem FloatToThreeDigits_truncates_witness:
  "fmul (Fin (- 3 / 4)) 10 = Fin (- 15 / 2) \<and> float_of_int 25 = Inr (Fin 25) \<and>
   (\<exists>s. FloatToThreeDigits (PyFloat (Fin (- 3 / 4))) = Inr s \<and> length s = 3 \<and>
        list_all digit_char s \<and> int (nat_of_digits s) = 193) \<and>
   (\<exists>s. FloatToThreeDigits (PyInt 25) = Inr s \<and> length s = 3 \<and>
        list_all digit_char s \<and> int (nat_of_digits s) = 50)"
proof -
  have a: "fmul (Fin (- 3 / 4)) 10 = Fin (- 15 / 2)"
    by (simp add: fmul_def float_of_rat_def fl_eval split del: if_split)
  have b: "float_of_int 25 = Inr (Fin 25)"
    by (simp add: float_of_int_def float_of_rat_def fl_eval split del: if_split)
  have c: "trunc (- 15 / 2) mod 200 = 193" "(25 * 10 :: int) mod 200 = 50"
    by (simp_all add: trunc_def ceiling_neg_num_div)
  from FloatToThreeDigits_truncates[of "Fin (- 3 / 4)" "- 15 / 2" 25 "Fin 25" "[]"] a b c
  show ?thesis by simp
qed

text \<open>
  Claim C10, as stated: for every finite number the encoder returns three decimal digits.
  The double \<open>2^1023\<close> is finite, but ten times it is beyond the largest double: the
  product is an infinity and \<open>int\<close> raises OverflowError.
\<close>

theorem FloatToThreeDigits_total_counterexample:
  "FloatToThreeDigits (PyFloat (Fin (2 ^ 1023))) = Inl OverflowError"
  by (simp add: FloatToThreeDigits_def fmul_def float_of_rat_def int_of_float_def)

text \<open>
  Claim C10, amended: for every float, negative ones included, whose tenfold product is
  still a finite double, and for every int that converts to a float, the encoder returns
  exactly three characters, all decimal digits (so no minus sign), which spell an integer
  from 0 to 199.
\<close>

theorem FloatToThreeDigits_three_digits:
  "(fmul x 10 = Fin p \<longrightarrow>
      (\<exists>s. FloatToThreeDigits (PyFloat x) = Inr s \<and> length s = 3 \<and> list_all digit_char s \<and>
           nat_of_digits s < 200)) \<and>
   (float_of_int n = Inr f \<longrightarrow>
      (\<exists>s. FloatToThreeDigits (PyInt n) = Inr s \<and> length s = 3 \<and> list_all digit_char s \<and>
           nat_of_digits s < 200))"
proof -
  have lt: "\<And>i s. int (nat_of_digits s) = i mod 200 \<Longrightarrow> nat_of_digits s < 200"
    by (metis Euclidean_Rings.pos_mod_bound nat_int nat_less_iff of_nat_0_le_iff
        zero_less_numeral of_nat_numeral)
  show ?thesis
    using field3_props[of "trunc p"] field3_props[of "n * 10"]
    by (auto simp: FloatToThreeDigits_float FloatToThreeDigits_int dest: lt)
qed

theorem FloatToThreeDigits_three_digits_witness:
  "fmul (Fin (- 25 / 2)) 10 = Fin (- 125) \<and> float_of_int (- 3) = Inr (Fin (- 3)) \<and>
   (\<exists>s. FloatToThreeDigits (PyFloat (Fin (- 25 / 2))) = Inr s \<and> length s = 3 \<and>
        list_all digit_char s \<and> nat_of_digits s < 200) \<and>
   (\<exists>s. FloatToThreeDigits (PyInt (- 3)) = Inr s \<and> length s = 3 \<and>
        list_all digit_char s \<and> nat_of_digits s < 200)"
proof -
  have a: "fmul (Fin (- 25 / 2)) 10 = Fin (- 125)"
    by (simp add: fmul_def float_of_rat_def fl_eval split del: if_split)
  have b: "float_of_int (- 3) = Inr (Fin (- 3))"
    by (simp add: float_of_int_def float_of_rat_def fl_eval split del: if_split)
  from FloatToThreeDigits_three_digits[of "Fin (- 25 / 2)" "- 125" "- 3" "Fin (- 3)"] a b
  show ?thesis by simp
qed





section \<open>The decoders\<close>

lemma digit_not_space: "digit_char c \<Longrightarrow> \<not> space_char c"
  by (auto simp: digit_char_def space_char_def)

lemma digit_not_sign: "digit_char c \<Longrightarrow> c \<noteq> CHR ''-'' \<and> c \<noteq> CHR ''+''"
  by (auto simp: digit_char_def)

lemma dropWhile_keep: "s \<noteq> [] \<Longrightarrow> \<not> P (hd s) \<Longrightarrow> dropWhile P s = s"
  by (cases s) simp_all

lemma strip_digits: "s \<noteq> [] \<Longrightarrow> list_all digit_char s \<Longrightarrow> strip s = s"
proof -
  assume ne: "s \<noteq> []" and d: "list_all digit_char s"
  from ne d have h: "\<not> space_char (hd s)"
    by (cases s) (simp_all add: digit_not_space)
  from ne d have l: "\<not> space_char (hd (rev s))"
    by (simp add: hd_rev list_all_iff digit_not_space)
  from ne h l show ?thesis
    by (simp add: strip_def dropWhile_keep)
qed

lemma int_of_str_digits:
  "s \<noteq> [] \<Longrightarrow> list_all digit_char s \<Longrightarrow> int_of_str s = Inr (int (nat_of_digits s))"
  by (cases s) (auto simp: int_of_str_def strip_digits digits_to_int_def dest: digit_not_sign)

lemma float_of_str_digits:
  "s \<noteq> [] \<Longrightarrow> list_all digit_char s \<Longrightarrow>
   float_of_str s = Inr (float_of_rat (of_nat (nat_of_digits s)))"
  by (cases s) (auto simp: float_of_str_def strip_digits digits_to_int_def dest: digit_not_sign)




lemma ThreeDigitsToFloat_digits:
  "s \<noteq> [] \<Longrightarrow> list_all digit_char s \<Longrightarrow>
   ThreeDigitsToFloat s = Inr (fdiv (float_of_rat (of_nat (nat_of_digits s))) 10)"
  by (simp add: ThreeDigitsToFloat_def int_of_str_digits float_of_str_digits)

lemma FourDigitsToFloat_digits:
  "s \<noteq> [] \<Longrightarrow> list_all digit_char s \<Longrightarrow>
   FourDigitsToFloat s = Inr (fdiv (float_of_rat (of_nat (nat_of_digits s))) 100)"
  by (simp add: FourDigitsToFloat_def int_of_str_digits float_of_str_digits)





section \<open>The poll loop\<close>

lemma ReadBuffer_loop_poll:
  "ticks_below n t \<Longrightarrow> ReadBuffer_loop ser d t = Some (poll n ser d)"
proof (induction n arbitrary: ser t)
  case 0
  then show ?case by (simp add: ReadBuffer_loop.simps[of ser d t])
next
  case (Suc n)
  then show ?case by (simp add: ReadBuffer_loop.simps[of ser d t])
qed

lemma poll_interval_val: "poll_interval = 5764607523034235 / 288230376151711744"
  by (simp add: poll_interval_def fl_eval split del: if_split)

lemma ticks_below_numeral:
  "ticks_below (numeral k) t =
     (t < timeout \<and> ticks_below (pred_numeral k) (fl (t + poll_interval)))"
  by (simp add: numeral_eq_Suc)

lemma ticks_50: "ticks_below 50 0"
  by (simp add: ticks_below_numeral timeout_def poll_interval_val fl_eval split del: if_split)

lemma ReadBuffer_poll: "ReadBuffer ser d = Some (poll 50 ser d)"
  by (simp add: ReadBuffer_def ReadBuffer_loop_poll[OF ticks_50])

lemma poll_numeral:
  "poll (numeral k) ser d =
     (if inWaiting ser = d then (Inr (fst (ser_read ser d)), snd (ser_read ser d))
      else poll (pred_numeral k) (sleep ser) d)"
  by (simp add: numeral_eq_Suc)

lemma poll_written: "written (snd (poll n ser d)) = written ser"
  by (induction n arbitrary: ser) (auto simp: ser_read_def sleep_def split: list.splits)

lemma poll_length: "fst (poll n ser d) = Inr b \<Longrightarrow> length b = d"
  by (induction n arbitrary: ser) (auto simp: ser_read_def inWaiting_def split: if_splits)

lemma poll_error: "fst (poll n ser d) = Inl e \<Longrightarrow> e = TimeoutException"
  by (induction n arbitrary: ser) (auto split: if_splits)







section \<open>Commands and replies\<close>

lemma ExecuteCommand_written:
  "\<exists>r ser'. ExecuteCommand ser command n = Some (r, ser') \<and>
     written ser' = written ser @ [command @ [CHR 0x0D]]"
proof -
  let ?s = "ser_write ser (command @ [CHR 0x0D])"
  obtain reply ser' where p: "poll 50 ?s (n + 3) = (reply, ser')" by (cases "poll 50 ?s (n + 3)")
  have w: "written ser' = written ser @ [command @ [CHR 0x0D]]"
    using poll_written[of 50 ?s "n + 3"] p by (simp add: ser_write_def)
  show ?thesis
    by (cases reply) (auto simp: ExecuteCommand_def ReadBuffer_poll p w)
qed

text \<open>
  Claim C4: for every command and every payload length \<open>n\<close>, \<open>ExecuteCommand\<close> writes the
  command followed by one carriage return, reads exactly \<open>n + 3\<close> bytes (or times out),
  fails with NoAck if and only if the two bytes of the reply at the offsets \<open>n\<close> and
  \<open>n + 1\<close> are not \<open>OK\<close>, and otherwise returns exactly the first \<open>n\<close> bytes of the reply.
\<close>

theorem ExecuteCommand_frames:
  "\<exists>reply ser'.
     ReadBuffer (ser_write ser (command @ [CHR 0x0D])) (n + 3) = Some (reply, ser') \<and>
     written ser' = written ser @ [command @ [CHR 0x0D]] \<and>
     (\<forall>e. reply = Inl e \<longrightarrow>
        e = TimeoutException \<and>
        ExecuteCommand ser command n = Some (Inl TimeoutException, ser')) \<and>
     (\<forall>readBuffer. reply = Inr readBuffer \<longrightarrow>
        length readBuffer = n + 3 \<and>
        (ExecuteCommand ser command n = Some (Inl NoAckException, ser') \<longleftrightarrow>
           take 2 (drop n readBuffer) \<noteq> ''OK'') \<and>
        (take 2 (drop n readBuffer) = ''OK'' \<longrightarrow>
           ExecuteCommand ser command n = Some (Inr (take n readBuffer), ser')))"
proof -
  let ?s = "ser_write ser (command @ [CHR 0x0D])"
  obtain reply ser' where p: "poll 50 ?s (n + 3) = (reply, ser')" by (cases "poll 50 ?s (n + 3)")
  have r: "ReadBuffer ?s (n + 3) = Some (reply, ser')"
    by (simp add: ReadBuffer_poll p)
  have w: "written ser' = written ser @ [command @ [CHR 0x0D]]"
    using poll_written[of 50 ?s "n + 3"] p by (simp add: ser_write_def)
  have e: "e = TimeoutException" if "reply = Inl e" for e
    using poll_error[of 50 ?s "n + 3" e] that by (simp add: p)
  have l: "length b = n + 3" if "reply = Inr b" for b
    using poll_length[of 50 ?s "n + 3" b] that by (simp add: p)
  show ?thesis
    using w e l
    by (intro exI[of _ reply] exI[of _ ser']) (auto simp: r ExecuteCommand_def slice_def)
qed

theorem ExecuteCommand_frames_witness:
  "ExecuteCommand \<lparr>written = [], in_buffer = [CHR ''O'', CHR ''K'', CHR 0x0D], arriving = []\<rparr>
     ''SOUT0'' 0 =
   Some (Inr [], \<lparr>written = [''SOUT0'' @ [CHR 0x0D]], in_buffer = [], arriving = []\<rparr>)"
proof -
  let ?ser = "\<lparr>written = [], in_buffer = [CHR ''O'', CHR ''K'', CHR 0x0D], arriving = []\<rparr>"
  have r: "ReadBuffer (ser_write ?ser (''SOUT0'' @ [CHR 0x0D])) (0 + 3) =
      Some (Inr [CHR ''O'', CHR ''K'', CHR 0x0D],
        \<lparr>written = [''SOUT0'' @ [CHR 0x0D]], in_buffer = [], arriving = []\<rparr>)"
    by (simp add: ReadBuffer_poll poll_numeral inWaiting_def ser_write_def ser_read_def)
  from ExecuteCommand_frames[of ?ser "''SOUT0''" 0] obtain reply ser' where
    a: "ReadBuffer (ser_write ?ser (''SOUT0'' @ [CHR 0x0D])) (0 + 3) = Some (reply, ser')" and
    b: "\<forall>readBuffer. reply = Inr readBuffer \<longrightarrow>
        length readBuffer = 0 + 3 \<and>
        (ExecuteCommand ?ser ''SOUT0'' 0 = Some (Inl NoAckException, ser') \<longleftrightarrow>
           take 2 (drop 0 readBuffer) \<noteq> ''OK'') \<and>
        (take 2 (drop 0 readBuffer) = ''OK'' \<longrightarrow>
           ExecuteCommand ?ser ''SOUT0'' 0 = Some (Inr (take 0 readBuffer), ser'))"
    by blast
  from a r have "reply = Inr [CHR ''O'', CHR ''K'', CHR 0x0D]"
    and "ser' = \<lparr>written = [''SOUT0'' @ [CHR 0x0D]], in_buffer = [], arriving = []\<rparr>"
    by simp_all
  with b show ?thesis by simp
qed

lemma send_preset_written:
  "\<exists>r ser'. send_preset ser command = Some (r, ser') \<and>
     written ser' = written ser @ [command @ [CHR 0x0D]]"
proof -
  from ExecuteCommand_written[of ser command 0]
  obtain r ser' where x: "ExecuteCommand ser command 0 = Some (r, ser')"
    and w: "written ser' = written ser @ [command @ [CHR 0x0D]]"
    by blast
  from x w show ?thesis by (cases r) (auto simp: send_preset_def)
qed

lemmas str_float_eval =
  str_float_def str_pos_float_def sig_digits_def dec_exp_def pow10_def rstrip_zeros_def
  exp_digits_def round_half_even_def Let_def floor_num_div ceiling_num_div str_nat.simps
  digit_of_def rjust_def replicate_eval

text \<open>
  Claim C8, as stated: every index outside 0, 1, 2 fails with InvalidArgument before any
  transmission. The range test converts the argument with \<open>int\<close>, which truncates, and
  the command is built from the argument itself: for 2.5 the test sees 2, and
  \<open>RUNM2.5\<close> with a carriage return is written.
\<close>

theorem RecallPresetValues_fraction_counterexample:
  "RecallPresetValues
     \<lparr>written = [], in_buffer = [CHR ''O'', CHR ''K'', CHR 0x0D], arriving = []\<rparr>
     (PyFloat (Fin (5 / 2))) =
   Some (Inr (), \<lparr>written = [''RUNM2.5'' @ [CHR 0x0D]], in_buffer = [], arriving = []\<rparr>)"
  by (simp add: RecallPresetValues_def int_of_float_def trunc_def floor_num_div send_preset_def
      ExecuteCommand_def ReadBuffer_poll poll_numeral inWaiting_def ser_write_def ser_read_def
      slice_def str_float_eval split del: if_split)

text \<open>
  Claim C8, amended: for every int index outside 0, 1, 2, and for every finite float whose
  integer part is outside 0, 1, 2, \<open>RecallPresetValues\<close> fails with InvalidArgument and
  the serial port is left as it was; for an int index \<open>n\<close> among 0, 1, 2 it writes exactly
  \<open>RUNMn\<close> and a carriage return.
\<close>

theorem RecallPresetValues_index:
  "(n < 0 \<or> 2 < n \<longrightarrow>
      RecallPresetValues ser (PyInt n) = Some (Inl InvalidArgumentException, ser)) \<and>
   (trunc q < 0 \<or> 2 < trunc q \<longrightarrow>
      RecallPresetValues ser (PyFloat (Fin q)) = Some (Inl InvalidArgumentException, ser)) \<and>
   (0 \<le> n \<and> n \<le> 2 \<longrightarrow>
      (\<exists>r ser'. RecallPresetValues ser (PyInt n) = Some (r, ser') \<and>
         written ser' =
           written ser @ [[''RUNM0'', ''RUNM1'', ''RUNM2''] ! nat n @ [CHR 0x0D]]))"
proof (intro conjI impI)
  assume "n < 0 \<or> 2 < n"
  then show "RecallPresetValues ser (PyInt n) = Some (Inl InvalidArgumentException, ser)"
    by (auto simp: RecallPresetValues_def)
next
  assume "trunc q < 0 \<or> 2 < trunc q"
  then show "RecallPresetValues ser (PyFloat (Fin q)) = Some (Inl InvalidArgumentException, ser)"
    by (auto simp: RecallPresetValues_def int_of_float_def)
next
  assume a: "0 \<le> n \<and> n \<le> 2"
  then consider "n = 0" | "n = 1" | "n = 2" by linarith
  then have c: "''RUNM'' @ str_int n = [''RUNM0'', ''RUNM1'', ''RUNM2''] ! nat n"
    by cases (simp_all add: str_eval)
  from send_preset_written[of ser "''RUNM'' @ str_int n"]
  obtain r ser' where x: "send_preset ser (''RUNM'' @ str_int n) = Some (r, ser')"
    and w: "written ser' = written ser @ [(''RUNM'' @ str_int n) @ [CHR 0x0D]]"
    by blast
  from a x w c show "\<exists>r ser'. RecallPresetValues ser (PyInt n) = Some (r, ser') \<and>
         written ser' = written ser @ [[''RUNM0'', ''RUNM1'', ''RUNM2''] ! nat n @ [CHR 0x0D]]"
    by (auto simp: RecallPresetValues_def)
qed

theorem RecallPresetValues_index_witness:
  "RecallPresetValues \<lparr>written = [], in_buffer = [], arriving = []\<rparr> (PyInt 3) =
     Some (Inl InvalidArgumentException, \<lparr>written = [], in_buffer = [], arriving = []\<rparr>) \<and>
   RecallPresetValues \<lparr>written = [], in_buffer = [], arriving = []\<rparr> (PyFloat (Fin (- 3 / 2))) =
     Some (Inl InvalidArgumentException, \<lparr>written = [], in_buffer = [], arriving = []\<rparr>) \<and>
   (\<exists>r ser'. RecallPresetValues \<lparr>written = [], in_buffer = [], arriving = []\<rparr> (PyInt 2) =
        Some (r, ser') \<and>
      written ser' = [''RUNM2'' @ [CHR 0x0D]])"
proof -
  have t: "trunc (- 3 / 2) < 0"
    by (simp add: trunc_def ceiling_neg_num_div)
  from RecallPresetValues_index[of 3 "\<lparr>written = [], in_buffer = [], arriving = []\<rparr>" "- 3 / 2"]
    RecallPresetValues_index[of 2 "\<lparr>written = [], in_buffer = [], arriving = []\<rparr>" "- 3 / 2"] t
  show ?thesis by simp
qed

lemma digit_val_zero_iff: "digit_char c \<Longrightarrow> (digit_val c = 0) = (c = CHR ''0'')"
  by (auto simp: digit_char_def digit_val_def)

lemma int_of_str_digit: "digit_char c \<Longrightarrow> int_of_str [c] = Inr (int (digit_val c))"
  using int_of_str_digits[of "[c]"] by (simp add: nat_of_digits_def)

text \<open>
  Claim C9: when the reply to \<open>GETD\<close> carries a payload of ten bytes whose first nine
  are decimal digits, \<open>GetDisplayStatus\<close> returns the first four digits divided by 100 as
  the voltage, the next four divided by 100 as the current, and the mode \<open>CV\<close> exactly
  when the ninth digit is 0 (\<open>CC\<close> otherwise). With the reply \<open>0500010000OK\<close> and a
  carriage return it returns 5.0, 1.0 and \<open>CV\<close>.
\<close>

theorem GetDisplayStatus_decodes:
  "length p = 10 \<Longrightarrow> list_all digit_char (take 9 p) \<Longrightarrow>
   ExecuteCommand ser ''GETD'' 10 = Some (Inr p, ser') \<Longrightarrow>
   GetDisplayStatus ser =
     Some (Inr (fdiv (float_of_rat (of_nat (nat_of_digits (take 4 p)))) 100,
                fdiv (float_of_rat (of_nat (nat_of_digits (take 4 (drop 4 p))))) 100,
                if p ! 8 = CHR ''0'' then ''CV'' else ''CC''),
           ser')"
proof -
  assume len: "length p = 10" and dig: "list_all digit_char (take 9 p)"
    and x: "ExecuteCommand ser ''GETD'' 10 = Some (Inr p, ser')"
  have d: "digit_char (p ! i)" if "i < 9" for i
  proof -
    from that len have "(take 9 p) ! i = p ! i" and "i < length (take 9 p)" by simp_all
    with dig show ?thesis by (metis list_all_length)
  qed
  have v: "list_all digit_char (take 4 p)" "take 4 p \<noteq> []"
    using len d by (auto simp: list_all_length)
  have c: "list_all digit_char (take 4 (drop 4 p))" "take 4 (drop 4 p) \<noteq> []"
    using len d by (auto simp: list_all_length)
  from len have "8 < length p" by simp
  then have "drop 8 p = p ! 8 # drop (Suc 8) p"
    by (rule Cons_nth_drop_Suc[symmetric])
  then have m: "slice 8 9 p = [p ! 8]"
    by (simp add: slice_def)
  have md: "int_of_str [p ! 8] = Inr (int (digit_val (p ! 8)))"
    using d[of 8] by (simp add: int_of_str_digit)
  have f1: "FourDigitsToFloat (slice 0 4 p) =
      Inr (fdiv (float_of_rat (of_nat (nat_of_digits (take 4 p)))) 100)"
    using FourDigitsToFloat_digits[OF v(2) v(1)] by (simp add: slice_def)
  have f2: "FourDigitsToFloat (slice 4 8 p) =
      Inr (fdiv (float_of_rat (of_nat (nat_of_digits (take 4 (drop 4 p))))) 100)"
    using FourDigitsToFloat_digits[OF c(2) c(1)] by (simp add: slice_def)
  have f3: "int_of_str (slice 8 9 p) = Inr (int (digit_val (p ! 8)))"
    by (simp add: m md)
  have "decode_display p =
      Inr (fdiv (float_of_rat (of_nat (nat_of_digits (take 4 p)))) 100,
           fdiv (float_of_rat (of_nat (nat_of_digits (take 4 (drop 4 p))))) 100,
           if p ! 8 = CHR ''0'' then ''CV'' else ''CC'')"
    using d[of 8] by (simp add: decode_display_def f1 f2 f3 digit_val_zero_iff)
  then show ?thesis by (simp add: GetDisplayStatus_def x)
qed

theorem GetDisplayStatus_decodes_witness:
  "GetDisplayStatus
     \<lparr>written = [], in_buffer = ''0500010000OK'' @ [CHR 0x0D], arriving = []\<rparr> =
   Some (Inr (Fin 5, Fin 1, ''CV''),
         \<lparr>written = [''GETD'' @ [CHR 0x0D]], in_buffer = [], arriving = []\<rparr>)"
proof -
  let ?ser = "\<lparr>written = [], in_buffer = ''0500010000OK'' @ [CHR 0x0D], arriving = []\<rparr>"
  let ?ser' = "\<lparr>written = [''GETD'' @ [CHR 0x0D]], in_buffer = [], arriving = []\<rparr>"
  have x: "ExecuteCommand ?ser ''GETD'' 10 = Some (Inr ''0500010000'', ?ser')"
    by (simp add: ExecuteCommand_def ReadBuffer_poll poll_numeral inWaiting_def ser_write_def
        ser_read_def slice_def)
  have l: "length ''0500010000'' = 10" by simp
  have d: "list_all digit_char (take 9 ''0500010000'')" by (simp add: digit_char_def)
  have a: "fdiv (float_of_rat (of_nat (nat_of_digits (take 4 ''0500010000'')))) 100 = Fin 5"
    by (simp add: nat_of_digits_def digit_val_def fdiv_def float_of_rat_def fl_eval
        split del: if_split)
  have b: "fdiv (float_of_rat (of_nat (nat_of_digits (take 4 (drop 4 ''0500010000''))))) 100 =
      Fin 1"
    by (simp add: nat_of_digits_def digit_val_def fdiv_def float_of_rat_def fl_eval
        split del: if_split)
  from GetDisplayStatus_decodes[OF l d x] show ?thesis
    by (simp only: a b) simp
qed

section \<open>Storing the presets\<close>

lemma preset_fields_shape:
  "\<not> list_all is_pair slots \<Longrightarrow> \<exists>e. preset_fields slots command = Inl e"
proof (induction slots arbitrary: command)
  case Nil
  then show ?case by simp
next
  case (Cons slot slots)
  show ?case
  proof (cases "is_pair slot")
    case False
    then show ?thesis by (cases slot) simp_all
  next
    case True
    then obtain vs where s: "slot = PyList vs" "length vs = 2" by (cases slot) simp_all
    from True Cons.prems have "\<not> list_all is_pair slots" by simp
    from Cons.IH[OF this] s show ?thesis
      by (auto split: sum.splits)
  qed
qed

lemma preset_fields_invalid:
  "\<not> list_all is_pair slots \<Longrightarrow> list_all slot_encodable slots \<Longrightarrow>
   preset_fields slots command = Inl InvalidArgumentException"
proof (induction slots arbitrary: command)
  case Nil
  then show ?case by simp
next
  case (Cons slot slots)
  show ?case
  proof (cases "is_pair slot")
    case False
    then show ?thesis by (cases slot) simp_all
  next
    case True
    then obtain vs where s: "slot = PyList vs" "length vs = 2" by (cases slot) simp_all
    from s(2) have n: "vs ! 0 \<in> set vs" "vs ! 1 \<in> set vs" by simp_all
    from Cons.prems(2) s(1) n have e: "\<not> isl (FloatToThreeDigits (vs ! 0))"
      "\<not> isl (FloatToThreeDigits (vs ! 1))"
      by (simp_all add: list_all_iff)
    from True Cons.prems have "\<not> list_all is_pair slots" "list_all slot_encodable slots"
      by simp_all
    from Cons.IH[OF this] s e show ?thesis
      by (auto split: sum.splits)
  qed
qed

text \<open>
  Claim C7, as stated: every input that is not a list of exactly three slots of exactly two
  values fails with InvalidArgument. The slots are checked one at a time, each just before
  its values are encoded: with a first slot \<open>[None, 1]\<close> and a second slot that is not a
  list, the encoder fails on \<open>None\<close> with TypeError before the second slot is looked at.
\<close>

theorem SetPresetValues_shape_counterexample:
  "\<not> well_shaped (PyList [PyList [PyNone, PyInt 1], PyInt 5, PyInt 6]) \<and>
   SetPresetValues \<lparr>written = [], in_buffer = [], arriving = []\<rparr>
     (PyList [PyList [PyNone, PyInt 1], PyInt 5, PyInt 6]) =
   Some (Inl TypeError, \<lparr>written = [], in_buffer = [], arriving = []\<rparr>)"
  by (simp add: SetPresetValues_def FloatToThreeDigits_def)

text \<open>
  Claim C7, amended: for every input that is not a list of exactly three slots, each a list
  of exactly two values, \<open>SetPresetValues\<close> fails and the serial port is left as it was,
  nothing being written; the failure is InvalidArgument whenever the values in the slots
  are ones the encoder accepts. For a well-shaped input of such values it writes \<open>PROM\<close>
  followed by the six encodings in the order V0, I0, V1, I1, V2, I2 and a carriage return.
\<close>

theorem SetPresetValues_shape:
  "(\<not> well_shaped presets \<longrightarrow> (\<exists>e. SetPresetValues ser presets = Some (Inl e, ser))) \<and>
   (\<not> well_shaped presets \<and> values_encodable presets \<longrightarrow>
      SetPresetValues ser presets = Some (Inl InvalidArgumentException, ser)) \<and>
   (FloatToThreeDigits v0 = Inr a0 \<and> FloatToThreeDigits i0 = Inr b0 \<and>
    FloatToThreeDigits v1 = Inr a1 \<and> FloatToThreeDigits i1 = Inr b1 \<and>
    FloatToThreeDigits v2 = Inr a2 \<and> FloatToThreeDigits i2 = Inr b2 \<longrightarrow>
      (\<exists>r ser'. SetPresetValues ser (PyList [PyList [v0, i0], PyList [v1, i1], PyList [v2, i2]]) =
           Some (r, ser') \<and>
         written ser' =
           written ser @ [''PROM'' @ a0 @ b0 @ a1 @ b1 @ a2 @ b2 @ [CHR 0x0D]]))"
proof (intro conjI impI)
  assume n: "\<not> well_shaped presets"
  show "\<exists>e. SetPresetValues ser presets = Some (Inl e, ser)"
  proof (cases presets)
    case (PyList slots)
    show ?thesis
    proof (cases "length slots = 3")
      case True
      with n PyList have "\<not> list_all is_pair slots" by simp
      from preset_fields_shape[OF this, of "''PROM''"] PyList True show ?thesis
        by (auto simp: SetPresetValues_def)
    next
      case False
      with PyList show ?thesis by (simp add: SetPresetValues_def)
    qed
  qed (simp_all add: SetPresetValues_def)
next
  assume "\<not> well_shaped presets \<and> values_encodable presets"
  then have n: "\<not> well_shaped presets" and v: "values_encodable presets" by simp_all
  show "SetPresetValues ser presets = Some (Inl InvalidArgumentException, ser)"
  proof (cases presets)
    case (PyList slots)
    show ?thesis
    proof (cases "length slots = 3")
      case True
      with n v PyList have "\<not> list_all is_pair slots" "list_all slot_encodable slots"
        by simp_all
      from preset_fields_invalid[OF this, of "''PROM''"] PyList True show ?thesis
        by (simp add: SetPresetValues_def)
    next
      case False
      with PyList show ?thesis by (simp add: SetPresetValues_def)
    qed
  qed (simp_all add: SetPresetValues_def)
next
  assume e: "FloatToThreeDigits v0 = Inr a0 \<and> FloatToThreeDigits i0 = Inr b0 \<and>
    FloatToThreeDigits v1 = Inr a1 \<and> FloatToThreeDigits i1 = Inr b1 \<and>
    FloatToThreeDigits v2 = Inr a2 \<and> FloatToThreeDigits i2 = Inr b2"
  let ?command = "''PROM'' @ a0 @ b0 @ a1 @ b1 @ a2 @ b2"
  from e have f: "preset_fields [PyList [v0, i0], PyList [v1, i1], PyList [v2, i2]] ''PROM'' =
      Inr ?command"
    by simp
  from ExecuteCommand_written[of ser ?command 0]
  obtain r ser' where x: "ExecuteCommand ser ?command 0 = Some (r, ser')"
    and w: "written ser' = written ser @ [?command @ [CHR 0x0D]]"
    by blast
  have "\<exists>r'. SetPresetValues ser (PyList [PyList [v0, i0], PyList [v1, i1], PyList [v2, i2]]) =
      Some (r', ser')"
    unfolding SetPresetValues_def using x by (cases r) (simp_all add: f del: preset_fields.simps)
  with w show "\<exists>r ser'.
      SetPresetValues ser (PyList [PyList [v0, i0], PyList [v1, i1], PyList [v2, i2]]) =
        Some (r, ser') \<and>
      written ser' = written ser @ [''PROM'' @ a0 @ b0 @ a1 @ b1 @ a2 @ b2 @ [CHR 0x0D]]"
    by auto
qed

theorem SetPresetValues_shape_witness:
  "\<not> well_shaped (PyList [PyList [PyInt 5, PyInt 1], PyList [PyInt 12, PyInt 2]]) \<and>
   values_encodable (PyList [PyList [PyInt 5, PyInt 1], PyList [PyInt 12, PyInt 2]]) \<and>
   SetPresetValues \<lparr>written = [], in_buffer = [], arriving = []\<rparr>
     (PyList [PyList [PyInt 5, PyInt 1], PyList [PyInt 12, PyInt 2]]) =
     Some (Inl InvalidArgumentException, \<lparr>written = [], in_buffer = [], arriving = []\<rparr>) \<and>
   (\<exists>r ser'. SetPresetValues \<lparr>written = [], in_buffer = [], arriving = []\<rparr>
       (PyList [PyList [PyInt 5, PyInt 1], PyList [PyInt 12, PyInt 2], PyList [PyInt 3, PyInt 0]]) =
       Some (r, ser') \<and>
     written ser' = [''PROM050010120020030000'' @ [CHR 0x0D]])"
proof -
  let ?ser = "\<lparr>written = [], in_buffer = [], arriving = []\<rparr>"
  have enc: "FloatToThreeDigits (PyInt 5) = Inr ''050''" "FloatToThreeDigits (PyInt 1) = Inr ''010''"
    "FloatToThreeDigits (PyInt 12) = Inr ''120''" "FloatToThreeDigits (PyInt 2) = Inr ''020''"
    "FloatToThreeDigits (PyInt 3) = Inr ''030''" "FloatToThreeDigits (PyInt 0) = Inr ''000''"
    by (simp_all add: FloatToThreeDigits_def float_of_int_def float_of_rat_def fl_eval str_eval
        split del: if_split)
  have a: "\<not> well_shaped (PyList [PyList [PyInt 5, PyInt 1], PyList [PyInt 12, PyInt 2]])"
    by simp
  have b: "values_encodable (PyList [PyList [PyInt 5, PyInt 1], PyList [PyInt 12, PyInt 2]])"
    by (simp add: enc)
  from SetPresetValues_shape[of "PyList [PyList [PyInt 5, PyInt 1], PyList [PyInt 12, PyInt 2]]"
      ?ser "PyInt 5" "''050''" "PyInt 1" "''010''" "PyInt 12" "''120''" "PyInt 2" "''020''"
      "PyInt 3" "''030''" "PyInt 0" "''000''"] a b enc
  show ?thesis by simp
qed

section \<open>The round trip\<close>

lemma check_fromD: "check_from i n P \<Longrightarrow> i \<le> k \<Longrightarrow> k < n \<Longrightarrow> P k"
proof (induction i n P rule: check_from.induct)
  case (1 i n P)
  from "1.prems" have "i < n" by simp
  with "1.prems"(1) have Pi: "P i" and rest: "check_from (i + 1) n P"
    by (simp_all add: check_from.simps[of i n P])
  show ?case
  proof (cases "k = i")
    case True
    with Pi show ?thesis by simp
  next
    case False
    with "1.prems" have "i + 1 \<le> k" by simp
    with "1.IH"[OF \<open>i < n\<close> rest] "1.prems" show ?thesis by simp
  qed
qed

lemma trunc_of_nat: "trunc (of_nat k) = int k"
  by (simp add: trunc_def)

text \<open>
  When ten times the double nearest to \<open>k/10\<close> rounds to \<open>k\<close> exactly, the field is
  \<open>k\<close> and decoding it divides \<open>k\<close> by ten again, which gives the same double.
\<close>

lemma roundtrip3_tenfold:
  assumes k: "k < 200" and t: "tenfold_exact (fl (of_nat k / 10)) k"
  shows "roundtrip3 (float_of_rat (of_nat k / 10)) = Inr (float_of_rat (of_nat k / 10))"
proof -
  let ?v = "fl (of_nat k / 10)"
  let ?s = "rjust 3 (CHR ''0'') (str_int (int k mod 200))"
  from k have "\<bar>(of_nat k / 10 :: rat)\<bar> \<le> 1000000" by simp
  then have v: "float_of_rat (of_nat k / 10) = Fin ?v" by (rule float_of_rat_small)
  from t have p: "fmul (Fin ?v) 10 = Fin (of_nat k)"
    by (simp add: tenfold_exact_def fmul_def float_of_rat_small)
  have e: "FloatToThreeDigits (PyFloat (Fin ?v)) = Inr ?s"
    by (simp add: FloatToThreeDigits_float[OF p] trunc_of_nat)
  from field3_props[of "int k"] have ne: "?s \<noteq> []" and d: "list_all digit_char ?s"
    and n: "int (nat_of_digits ?s) = int k mod 200"
    by auto
  from n k have nk: "nat_of_digits ?s = k" by simp
  from k have "\<bar>(of_nat k :: rat)\<bar> \<le> 1000000" by simp
  then have fk: "float_of_rat (of_nat k) = Fin (of_nat k)"
    using t by (simp add: float_of_rat_small tenfold_exact_def)
  have "ThreeDigitsToFloat ?s = Inr (fdiv (float_of_rat (of_nat k)) 10)"
    using ThreeDigitsToFloat_digits[OF ne d] by (simp add: nk)
  also have "fdiv (float_of_rat (of_nat k)) 10 = float_of_rat (of_nat k / 10)"
    by (simp add: fk fdiv_def)
  finally have "ThreeDigitsToFloat ?s = Inr (Fin ?v)"
    by (simp add: v)
  then have "roundtrip3 (Fin ?v) = Inr (Fin ?v)"
    by (simp add: roundtrip3_def e)
  then show ?thesis
    by (simp add: v)
qed

text \<open>The 200 doubles nearest to 0.0, 0.1, \<dots>, 19.9, checked one by one.\<close>

lemma tenfold_0_20: "check_from 0 20 (\<lambda>k. tenfold_exact (fl (of_nat k / 10)) k)"
  by (simp add: check_from.simps tenfold_exact_def fl_eval split del: if_split)

lemma tenfold_20_40: "check_from 20 40 (\<lambda>k. tenfold_exact (fl (of_nat k / 10)) k)"
  by (simp add: check_from.simps tenfold_exact_def fl_eval split del: if_split)

lemma tenfold_40_60: "check_from 40 60 (\<lambda>k. tenfold_exact (fl (of_nat k / 10)) k)"
  by (simp add: check_from.simps tenfold_exact_def fl_eval split del: if_split)

lemma tenfold_60_80: "check_from 60 80 (\<lambda>k. tenfold_exact (fl (of_nat k / 10)) k)"
  by (simp add: check_from.simps tenfold_exact_def fl_eval split del: if_split)

lemma tenfold_80_100: "check_from 80 100 (\<lambda>k. tenfold_exact (fl (of_nat k / 10)) k)"
  by (simp add: check_from.simps tenfold_exact_def fl_eval split del: if_split)

lemma tenfold_100_120: "check_from 100 120 (\<lambda>k. tenfold_exact (fl (of_nat k / 10)) k)"
  by (simp add: check_from.simps tenfold_exact_def fl_eval split del: if_split)

lemma tenfold_120_140: "check_from 120 140 (\<lambda>k. tenfold_exact (fl (of_nat k / 10)) k)"
  by (simp add: check_from.simps tenfold_exact_def fl_eval split del: if_split)

lemma tenfold_140_160: "check_from 140 160 (\<lambda>k. tenfold_exact (fl (of_nat k / 10)) k)"
  by (simp add: check_from.simps tenfold_exact_def fl_eval split del: if_split)

lemma tenfold_160_180: "check_from 160 180 (\<lambda>k. tenfold_exact (fl (of_nat k / 10)) k)"
  by (simp add: check_from.simps tenfold_exact_def fl_eval split del: if_split)

lemma tenfold_180_200: "check_from 180 200 (\<lambda>k. tenfold_exact (fl (of_nat k / 10)) k)"
  by (simp add: check_from.simps tenfold_exact_def fl_eval split del: if_split)

lemma tenfold_all: "k < 200 \<Longrightarrow> tenfold_exact (fl (of_nat k / 10)) k"
proof -
  assume k: "k < 200"
  consider "0 \<le> k \<and> k < 20"
    | "20 \<le> k \<and> k < 40"
    | "40 \<le> k \<and> k < 60"
    | "60 \<le> k \<and> k < 80"
    | "80 \<le> k \<and> k < 100"
    | "100 \<le> k \<and> k < 120"
    | "120 \<le> k \<and> k < 140"
    | "140 \<le> k \<and> k < 160"
    | "160 \<le> k \<and> k < 180"
    | "180 \<le> k \<and> k < 200"
    using k by linarith
  then show ?thesis
  proof cases
    case 1
    then show ?thesis using check_fromD[OF tenfold_0_20, of k] by simp
  next
    case 2
    then show ?thesis using check_fromD[OF tenfold_20_40, of k] by simp
  next
    case 3
    then show ?thesis using check_fromD[OF tenfold_40_60, of k] by simp
  next
    case 4
    then show ?thesis using check_fromD[OF tenfold_60_80, of k] by simp
  next
    case 5
    then show ?thesis using check_fromD[OF tenfold_80_100, of k] by simp
  next
    case 6
    then show ?thesis using check_fromD[OF tenfold_100_120, of k] by simp
  next
    case 7
    then show ?thesis using check_fromD[OF tenfold_120_140, of k] by simp
  next
    case 8
    then show ?thesis using check_fromD[OF tenfold_140_160, of k] by simp
  next
    case 9
    then show ?thesis using check_fromD[OF tenfold_160_180, of k] by simp
  next
    case 10
    then show ?thesis using check_fromD[OF tenfold_180_200, of k] by simp
  qed
qed

text \<open>
  Claim C2: for every voltage \<open>v\<close> with \<open>0 \<le> v < 20.0\<close> in steps of 0.1, that is, for the
  double nearest to \<open>k/10\<close> with \<open>k < 200\<close>, decoding the encoding of \<open>v\<close> gives \<open>v\<close>.
\<close>

theorem roundtrip3_tenths:
  "k < 200 \<Longrightarrow>
   roundtrip3 (float_of_rat (of_nat k / 10)) = Inr (float_of_rat (of_nat k / 10))"
  by (rule roundtrip3_tenfold) (simp_all add: tenfold_all)

theorem roundtrip3_tenths_witness:
  "(157 :: nat) < 200 \<and> roundtrip3 (float_of_rat (157 / 10)) = Inr (float_of_rat (157 / 10))"
  using roundtrip3_tenths[of 157] by simp

end
